theory Spec2Isabelle
  imports Main
begin

section \<open>Request span tracking of django\_opentracing (tracing.py)\<close>

text \<open>
  The embedding follows \<^verbatim>\<open>src/django_opentracing/tracing.py\<close>. Python objects that the
  code mutates through references (scopes and their spans) live in a heap indexed by
  references; the dictionary \<^verbatim>\<open>_current_scopes\<close> is a map from request identities to
  lists of references. A call either returns a value or raises: its result is
  \<open>exc + 'a\<close>, paired with the state it leaves behind, since mutations made before a
  raise stay.
\<close>

subsection \<open>Exceptions\<close>

text \<open>
  Python exceptions. \<^verbatim>\<open>except Exception\<close> catches the instances of \<^verbatim>\<open>Exception\<close>;
  \<^verbatim>\<open>KeyboardInterrupt\<close> and \<^verbatim>\<open>SystemExit\<close> derive from \<^verbatim>\<open>BaseException\<close> only.
\<close>

datatype exc =
    InvalidCarrierException
  | SpanContextCorruptedException
  | UnsupportedFormatException
  | ValueError string
  | AttributeError string
  | IndexError string
  | TypeError string
  | RuntimeError string
  | KeyboardInterrupt
  | SystemExit

fun is_Exception :: "exc \<Rightarrow> bool" where
  "is_Exception KeyboardInterrupt = False"
| "is_Exception SystemExit = False"
| "is_Exception _ = True"

text \<open>\<^verbatim>\<open>str(exc)\<close>: the message the exception was built with.\<close>

fun str_exc :: "exc \<Rightarrow> string" where
  "str_exc (ValueError m) = m"
| "str_exc (AttributeError m) = m"
| "str_exc (IndexError m) = m"
| "str_exc (TypeError m) = m"
| "str_exc (RuntimeError m) = m"
| "str_exc _ = []"

subsection \<open>Data model\<close>

type_synonym ref = nat
type_synonym span_ctx = nat
type_synonym carrier = "string \<rightharpoonup> string"

datatype tag_value = TagStr string | TagBool bool | TagInt int

datatype log_value = LogStr string | LogExc exc

text \<open>
  A scope object together with the span it wraps: \<^verbatim>\<open>scope.span.set_tag\<close> writes
  \<open>tags\<close>, \<^verbatim>\<open>scope.span.log_kv\<close> appends to \<open>logs\<close>, \<^verbatim>\<open>scope.close()\<close> sets \<open>closed\<close>.
  The object comes from the tracer, so each of the three calls may raise instead:
  \<open>set_tag_raises\<close>, \<open>log_kv_raises\<close> and \<open>close_raises\<close> say when and what.
\<close>

record scope =
  operation_name :: string
  child_of :: "span_ctx option"
  tags :: "string \<rightharpoonup> tag_value"
  logs :: "(string \<times> log_value) list list"
  closed :: bool
  set_tag_raises :: "string \<Rightarrow> tag_value \<Rightarrow> exc option"
  log_kv_raises :: "(string \<times> log_value) list \<Rightarrow> exc option"
  close_raises :: "exc option"

text \<open>
  The request object. \<open>rid\<close> is its identity, which is what the dictionary hashes;
  \<open>META\<close> lists the items of \<^verbatim>\<open>request.META\<close> in iteration order. Strings are lists of
  8-bit characters, read as the code points 0 to 255: the strings of a WSGI environment
  hold no others. Reading \<^verbatim>\<open>request.method\<close> and calling
  \<^verbatim>\<open>request.get_full_path()\<close> return a string or raise. \<open>attrs a\<close> is what
  \<^verbatim>\<open>hasattr(request, a)\<close> followed by \<^verbatim>\<open>str(getattr(request, a))\<close> does: no such
  attribute, the string, or an exception.
\<close>

record request =
  rid :: nat
  META :: "(string \<times> string) list"
  request_method :: "exc + string"
  get_full_path :: "exc + string"
  attrs :: "string \<Rightarrow> exc + string option"

text \<open>
  What a handler returned, when it is not \<^verbatim>\<open>None\<close>: reading its \<^verbatim>\<open>status_code\<close>
  gives a number or raises (an object without that attribute).
\<close>

record response =
  status_code :: "exc + int"

text \<open>
  What \<^verbatim>\<open>inject\<close> is handed as its first argument. The opentracing interface asks for
  a span context; line 106 hands it the scope.
\<close>

datatype inject_arg = ScopeArg scope | SpanContextArg span_ctx

text \<open>
  The tracer is a capability of the opentracing library, which is not part of this
  repository: it is a parameter. Each of the three operations the code calls either
  returns or raises; \<open>start_active_span\<close> returns the new scope object. \<open>truthy\<close> is
  what \<^verbatim>\<open>bool(tracer)\<close> gives.
\<close>

record tracer_impl =
  truthy :: bool
  extract_ctx :: "carrier \<Rightarrow> exc + span_ctx option"
  start_active_span :: "string \<Rightarrow> span_ctx option \<Rightarrow> exc + scope"
  inject_ctx :: "inject_arg \<Rightarrow> carrier \<Rightarrow> exc + carrier"

text \<open>
  The user's callback \<^verbatim>\<open>start_span_cb(span, request)\<close>: it may change the span and it
  may raise.
\<close>

type_synonym callback = "scope \<Rightarrow> request \<Rightarrow> scope \<times> exc option"

text \<open>What the constructor may be given as \<^verbatim>\<open>start_span_cb\<close>.\<close>

datatype cb_arg = CbNone | CbCallable callback | CbNotCallable

fun callable :: "cb_arg \<Rightarrow> bool" where
  "callable (CbCallable _) = True"
| "callable _ = False"

record DjangoTracing =
  tracer_implementation :: "tracer_impl option"
  start_span_cb :: cb_arg
  current_scopes :: "nat \<rightharpoonup> ref option list"
  trace_all :: bool

text \<open>What the tracer is asked and what \<^verbatim>\<open>logging.error\<close> is given, in order.\<close>

datatype event =
    Extract carrier
  | StartActiveSpan string "span_ctx option"
  | Inject ref carrier
  | LogError string

text \<open>
  The tracker object \<open>tracing\<close>, the module globals \<^verbatim>\<open>opentracing.tracer\<close> and
  \<^verbatim>\<open>initialize_global_tracer.complete\<close>, the heap of scope objects and the event trace.
\<close>

record state =
  tracing :: DjangoTracing
  opentracing_tracer :: tracer_impl
  complete :: bool
  heap :: "ref \<Rightarrow> scope"
  next_ref :: ref
  events :: "event list"

text \<open>A handler: its \<^verbatim>\<open>__name__\<close> and what calling it does.\<close>

record view_func =
  func_name :: string
  call :: "request \<Rightarrow> state \<Rightarrow> (exc + response option) \<times> state"

subsection \<open>Tag names of opentracing.ext.tags\<close>

definition COMPONENT :: string where "COMPONENT = ''component''"
definition SPAN_KIND :: string where "SPAN_KIND = ''span.kind''"
definition SPAN_KIND_RPC_SERVER :: string where "SPAN_KIND_RPC_SERVER = ''server''"
definition HTTP_METHOD :: string where "HTTP_METHOD = ''http.method''"
definition HTTP_URL :: string where "HTTP_URL = ''http.url''"
definition HTTP_STATUS_CODE :: string where "HTTP_STATUS_CODE = ''http.status_code''"
definition ERROR :: string where "ERROR = ''error''"

subsection \<open>Constructor and tracer property\<close>

definition DjangoTracing_init :: "tracer_impl option \<Rightarrow> cb_arg \<Rightarrow> exc + DjangoTracing" where
  "DjangoTracing_init tracer cb =
     (if cb \<noteq> CbNone \<and> \<not> callable cb then Inl (ValueError ''start_span_cb is not callable'')
      else Inr \<lparr>tracer_implementation = tracer, start_span_cb = cb,
                current_scopes = Map.empty, trace_all = False\<rparr>)"

definition tracer :: "state \<Rightarrow> tracer_impl" where
  "tracer st =
     (case tracer_implementation (tracing st) of
        Some t \<Rightarrow> if truthy t then t else opentracing_tracer st
      | None \<Rightarrow> opentracing_tracer st)"

subsection \<open>get\_span\<close>

definition get_span :: "state \<Rightarrow> request \<Rightarrow> exc + ref option" where
  "get_span st req =
     (case current_scopes (tracing st) (rid req) of
        None \<Rightarrow> Inr None
      | Some [] \<Rightarrow> Inr None
      | Some (None # _) \<Rightarrow> Inl (AttributeError ''NoneType object has no attribute span'')
      | Some (Some r # _) \<Rightarrow> Inr (Some r))"

subsection \<open>Sequencing calls that may raise\<close>

type_synonym 'a call = "state \<Rightarrow> (exc + 'a) \<times> state"

text \<open>Run \<open>m\<close>; when it raises stop there, otherwise go on with \<open>f\<close>.\<close>

definition and_then :: "'a call \<Rightarrow> ('a \<Rightarrow> 'b call) \<Rightarrow> 'b call" where
  "and_then m f st = (case m st of (Inl e, st1) \<Rightarrow> (Inl e, st1) | (Inr x, st1) \<Rightarrow> f x st1)"

text \<open>Reading something that gives a value or raises, without touching the state.\<close>

definition value_of :: "exc + 'a \<Rightarrow> 'a call" where
  "value_of x st = (x, st)"

subsection \<open>Span and scope methods\<close>

definition set_tag :: "ref \<Rightarrow> string \<Rightarrow> tag_value \<Rightarrow> unit call" where
  "set_tag r key v st =
     (case set_tag_raises (heap st r) key v of
        Some e \<Rightarrow> (Inl e, st)
      | None \<Rightarrow>
          (Inr (),
           st\<lparr>heap := (heap st)(r := (heap st r)\<lparr>tags := (tags (heap st r))(key \<mapsto> v)\<rparr>)\<rparr>))"

definition log_kv :: "ref \<Rightarrow> (string \<times> log_value) list \<Rightarrow> unit call" where
  "log_kv r kv st =
     (case log_kv_raises (heap st r) kv of
        Some e \<Rightarrow> (Inl e, st)
      | None \<Rightarrow>
          (Inr (), st\<lparr>heap := (heap st)(r := (heap st r)\<lparr>logs := logs (heap st r) @ [kv]\<rparr>)\<rparr>))"

definition close :: "ref \<Rightarrow> unit call" where
  "close r st =
     (case close_raises (heap st r) of
        Some e \<Rightarrow> (Inl e, st)
      | None \<Rightarrow> (Inr (), st\<lparr>heap := (heap st)(r := (heap st r)\<lparr>closed := True\<rparr>)\<rparr>))"

definition emit :: "event \<Rightarrow> state \<Rightarrow> state" where
  "emit ev st = st\<lparr>events := events st @ [ev]\<rparr>"

subsection \<open>Header normalisation (lines 88 to 93)\<close>

text \<open>
  \<^verbatim>\<open>str.lower()\<close> on the code points 0 to 255: the upper-case letters are A to Z and
  the code points 192 to 222 except the multiplication sign 215, and each has its
  lower-case letter 32 places on.
\<close>

definition lower_char :: "char \<Rightarrow> char" where
  "lower_char c =
     (let n = (of_char c :: nat)
      in if (65 \<le> n \<and> n \<le> 90) \<or> (192 \<le> n \<and> n \<le> 222 \<and> n \<noteq> 215)
         then char_of (n + 32) else c)"

definition lower :: "string \<Rightarrow> string" where
  "lower s = map lower_char s"

definition replace :: "char \<Rightarrow> char \<Rightarrow> string \<Rightarrow> string" where
  "replace a b s = map (\<lambda>c. if c = a then b else c) s"

definition startswith :: "string \<Rightarrow> string \<Rightarrow> bool" where
  "startswith s p = (take (length p) s = p)"

definition header_key :: "string \<Rightarrow> string" where
  "header_key k0 =
     (let k = replace (CHR ''_'') (CHR ''-'') (lower k0)
      in if startswith k ''http-'' then drop 5 k else k)"

fun strip_headers :: "(string \<times> string) list \<Rightarrow> carrier \<Rightarrow> carrier" where
  "strip_headers [] headers = headers"
| "strip_headers ((k, v) # items) headers = strip_headers items (headers(header_key k \<mapsto> v))"

subsection \<open>Starting the span (lines 96 to 106)\<close>

text \<open>One call of \<^verbatim>\<open>self.tracer.start_active_span\<close>: the returned scope gets a fresh reference.\<close>

definition call_start_active_span ::
  "string \<Rightarrow> span_ctx option \<Rightarrow> state \<Rightarrow> (exc + ref) \<times> state" where
  "call_start_active_span name parent st =
     (let st1 = emit (StartActiveSpan name parent) st
      in case start_active_span (tracer st) name parent of
           Inl e \<Rightarrow> (Inl e, st1)
         | Inr sc \<Rightarrow>
             (Inr (next_ref st1),
              st1\<lparr>heap := (heap st1)(next_ref st1 := sc), next_ref := Suc (next_ref st1)\<rparr>))"

text \<open>The body of the inner \<^verbatim>\<open>try\<close>: extract, then start a child of the extracted context.\<close>

definition start_from_trace_info ::
  "string \<Rightarrow> carrier \<Rightarrow> state \<Rightarrow> (exc + ref) \<times> state" where
  "start_from_trace_info name headers st =
     (let st1 = emit (Extract headers) st
      in case extract_ctx (tracer st) headers of
           Inl e \<Rightarrow> (Inl e, st1)
         | Inr span_ctx \<Rightarrow> call_start_active_span name span_ctx st1)"

text \<open>The handler of the inner \<^verbatim>\<open>except\<close>: a span without parent, injected into the headers.\<close>

definition start_root_and_inject ::
  "string \<Rightarrow> carrier \<Rightarrow> state \<Rightarrow> (exc + ref) \<times> state" where
  "start_root_and_inject name headers st =
     (case call_start_active_span name None st of
        (Inl e, st1) \<Rightarrow> (Inl e, st1)
      | (Inr r, st1) \<Rightarrow>
          (let st2 = emit (Inject r headers) st1
           in case inject_ctx (tracer st) (ScopeArg (heap st1 r)) headers of
                Inl e \<Rightarrow> (Inl e, st2)
              | Inr headers' \<Rightarrow> (Inr r, st2)))"

definition new_scope :: "string \<Rightarrow> carrier \<Rightarrow> state \<Rightarrow> (exc + ref) \<times> state" where
  "new_scope name headers st =
     (case start_from_trace_info name headers st of
        (Inr r, st1) \<Rightarrow> (Inr r, st1)
      | (Inl e, st1) \<Rightarrow>
          if e = InvalidCarrierException \<or> e = SpanContextCorruptedException
          then start_root_and_inject name headers st1
          else (Inl e, st1))"

subsection \<open>The rest of \_apply\_tracing\<close>

text \<open>\<^verbatim>\<open>self._current_scopes.setdefault(request, []).append(scope)\<close>\<close>

definition push_scope :: "request \<Rightarrow> ref \<Rightarrow> state \<Rightarrow> state" where
  "push_scope req r st =
     st\<lparr>tracing := (tracing st)\<lparr>current_scopes :=
        (current_scopes (tracing st))(rid req \<mapsto>
           (case current_scopes (tracing st) (rid req) of
              None \<Rightarrow> [Some r]
            | Some scopes \<Rightarrow> scopes @ [Some r]))\<rparr>\<rparr>"

text \<open>
  Lines 113 to 116. The argument is read before \<^verbatim>\<open>set_tag\<close> is called with it.
\<close>

definition standard_tags :: "request \<Rightarrow> ref \<Rightarrow> unit call" where
  "standard_tags req r =
     and_then (set_tag r COMPONENT (TagStr ''django'')) (\<lambda>_.
     and_then (set_tag r SPAN_KIND (TagStr SPAN_KIND_RPC_SERVER)) (\<lambda>_.
     and_then (value_of (request_method req)) (\<lambda>m.
     and_then (set_tag r HTTP_METHOD (TagStr m)) (\<lambda>_.
     and_then (value_of (get_full_path req)) (\<lambda>p.
     set_tag r HTTP_URL (TagStr p))))))"

text \<open>Lines 119 to 123.\<close>

fun traced_attributes :: "request \<Rightarrow> ref \<Rightarrow> string list \<Rightarrow> unit call" where
  "traced_attributes req r [] st = (Inr (), st)"
| "traced_attributes req r (attr # as) st =
     (case attrs req attr of
        Inl e \<Rightarrow> (Inl e, st)
      | Inr None \<Rightarrow> traced_attributes req r as st
      | Inr (Some payload) \<Rightarrow>
          if payload \<noteq> []
          then (case set_tag r attr (TagStr payload) st of
                  (Inl e, st1) \<Rightarrow> (Inl e, st1)
                | (Inr _, st1) \<Rightarrow> traced_attributes req r as st1)
          else traced_attributes req r as st)"

definition call_start_span_cb :: "ref \<Rightarrow> request \<Rightarrow> unit call" where
  "call_start_span_cb r req st =
     (case start_span_cb (tracing st) of
        CbNone \<Rightarrow> (Inr (), st)
      | CbNotCallable \<Rightarrow> (Inr (), st)
      | CbCallable cb \<Rightarrow>
          (let st1 = st\<lparr>heap := (heap st)(r := fst (cb (heap st r) req))\<rparr>
           in case snd (cb (heap st r) req) of
                None \<Rightarrow> (Inr (), st1)
              | Some e \<Rightarrow> if is_Exception e then (Inr (), st1) else (Inl e, st1)))"

text \<open>Lines 112 to 127: what follows the push.\<close>

definition after_push :: "request \<Rightarrow> ref \<Rightarrow> string list \<Rightarrow> ref option call" where
  "after_push req r attributes =
     and_then (standard_tags req r) (\<lambda>_.
     and_then (traced_attributes req r attributes) (\<lambda>_.
     and_then (call_start_span_cb r req) (\<lambda>_.
     value_of (Inr (Some r)))))"

text \<open>The body of the outer \<^verbatim>\<open>try\<close> of \<^verbatim>\<open>_apply_tracing\<close>.\<close>

definition apply_tracing_body ::
  "request \<Rightarrow> view_func \<Rightarrow> string list \<Rightarrow> state \<Rightarrow> (exc + ref option) \<times> state" where
  "apply_tracing_body req vf attributes st =
     (case new_scope (func_name vf) (strip_headers (META req) Map.empty) st of
        (Inl e, st1) \<Rightarrow> (Inl e, st1)
      | (Inr r, st1) \<Rightarrow> after_push req r attributes (push_scope req r st1))"

definition apply_tracing ::
  "request \<Rightarrow> view_func \<Rightarrow> string list \<Rightarrow> state \<Rightarrow> (exc + ref option) \<times> state" where
  "apply_tracing req vf attributes st =
     (case apply_tracing_body req vf attributes st of
        (Inr scope, st1) \<Rightarrow> (Inr scope, st1)
      | (Inl e, st1) \<Rightarrow>
          if is_Exception e
          then (Inr None, emit (LogError (''Exception during apply tracing: '' @ str_exc e)) st1)
          else (Inl e, st1))"

subsection \<open>\_finish\_tracing\<close>

text \<open>Lines 144 to 149.\<close>

definition tag_error :: "ref \<Rightarrow> exc option \<Rightarrow> unit call" where
  "tag_error r error st =
     (case error of
        None \<Rightarrow> (Inr (), st)
      | Some e \<Rightarrow>
          and_then (set_tag r ERROR (TagBool True)) (\<lambda>_.
          log_kv r [(''event'', LogStr ERROR), (''error.object'', LogExc e)]) st)"

text \<open>Lines 150 and 151.\<close>

definition tag_status :: "ref \<Rightarrow> response option \<Rightarrow> unit call" where
  "tag_status r resp st =
     (case resp of
        None \<Rightarrow> (Inr (), st)
      | Some rs \<Rightarrow>
          and_then (value_of (status_code rs)) (\<lambda>code.
          set_tag r HTTP_STATUS_CODE (TagInt code)) st)"

definition finish_tracing_body ::
  "request \<Rightarrow> response option \<Rightarrow> exc option \<Rightarrow> state \<Rightarrow> (exc + unit) \<times> state" where
  "finish_tracing_body req resp error st =
     (case current_scopes (tracing st) (rid req) of
        None \<Rightarrow> (Inr (), st)
      | Some scopes \<Rightarrow>
          if scopes = [] then (Inl (IndexError ''pop from empty list''), st)
          else
            (let scope = last scopes;
                 st1 = st\<lparr>tracing := (tracing st)\<lparr>current_scopes :=
                          (if butlast scopes = []
                           then (current_scopes (tracing st))(rid req := None)
                           else (current_scopes (tracing st))(rid req \<mapsto> butlast scopes))\<rparr>\<rparr>
             in case scope of
                  None \<Rightarrow> (Inr (), st1)
                | Some r \<Rightarrow>
                    and_then (tag_error r error) (\<lambda>_.
                    and_then (tag_status r resp) (\<lambda>_.
                    close r)) st1))"

definition finish_tracing ::
  "request \<Rightarrow> response option \<Rightarrow> exc option \<Rightarrow> state \<Rightarrow> (exc + unit) \<times> state" where
  "finish_tracing req resp error st =
     (case finish_tracing_body req resp error st of
        (Inr u, st1) \<Rightarrow> (Inr u, st1)
      | (Inl e, st1) \<Rightarrow>
          if is_Exception e
          then (Inr (), emit (LogError (''Exception during finish tracing: '' @ str_exc e)) st1)
          else (Inl e, st1))"

subsection \<open>The wrapper built by trace\<close>



subsection \<open>initialize\_global\_tracer\<close>

definition initialize_global_tracer :: "DjangoTracing \<Rightarrow> state \<Rightarrow> state" where
  "initialize_global_tracer tr st =
     (if complete st then st
      else
        (let st1 = (case tracer_implementation tr of
                      None \<Rightarrow> st
                    | Some t \<Rightarrow> st\<lparr>opentracing_tracer := t\<rparr>)
         in st1\<lparr>complete := True\<rparr>))"

subsection \<open>Sequences of calls\<close>

datatype op =
    Begin request view_func "string list"
  | End request "response option" "exc option"

fun exec_op :: "op \<Rightarrow> state \<Rightarrow> state" where
  "exec_op (Begin req vf attributes) st = snd (apply_tracing req vf attributes st)"
| "exec_op (End req resp error) st = snd (finish_tracing req resp error st)"

fun run :: "op list \<Rightarrow> state \<Rightarrow> state" where
  "run [] st = st"
| "run (p # ps) st = run ps (exec_op p st)"

subsection \<open>Derived notions used in the statements\<close>

text \<open>The scope list of a request, empty when the request has no entry.\<close>

definition stack_of :: "state \<Rightarrow> nat \<Rightarrow> ref option list" where
  "stack_of st k = (case current_scopes (tracing st) k of None \<Rightarrow> [] | Some scopes \<Rightarrow> scopes)"

text \<open>Consecutive calls of \<^verbatim>\<open>_apply_tracing\<close>, with what each returned.\<close>

fun begins ::
  "(request \<times> view_func \<times> string list) list \<Rightarrow> state \<Rightarrow> (exc + ref option) list \<times> state" where
  "begins [] st = ([], st)"
| "begins ((req, vf, as) # bs) st =
     (fst (apply_tracing req vf as st) # fst (begins bs (snd (apply_tracing req vf as st))),
      snd (begins bs (snd (apply_tracing req vf as st))))"

text \<open>Consecutive calls of \<^verbatim>\<open>_finish_tracing\<close>.\<close>

fun ends :: "(request \<times> response option \<times> exc option) list \<Rightarrow> state \<Rightarrow> state" where
  "ends [] st = st"
| "ends ((req, resp, err) # es) st = ends es (snd (finish_tracing req resp err st))"

text \<open>
  The calls an end makes on the scope it popped all return: the two of the error branch
  when an error is given, the reading of the status code and the tagging with it when a
  response is given, and the closing.
\<close>

definition span_calls_return :: "scope \<Rightarrow> response option \<Rightarrow> exc option \<Rightarrow> bool" where
  "span_calls_return sc resp error =
     ((case error of
         None \<Rightarrow> True
       | Some e \<Rightarrow>
           set_tag_raises sc ERROR (TagBool True) = None \<and>
           log_kv_raises sc [(''event'', LogStr ERROR), (''error.object'', LogExc e)] = None) \<and>
      (case resp of
         None \<Rightarrow> True
       | Some rs \<Rightarrow>
           (case status_code rs of
              Inl e \<Rightarrow> False
            | Inr code \<Rightarrow> set_tag_raises sc HTTP_STATUS_CODE (TagInt code) = None)) \<and>
      close_raises sc = None)"

text \<open>
  The tracer gives a begin with this operation name and carrier a scope: extract and
  the start of a child return, or one of them raises one of the two exceptions of the
  inner handler and the start of a span without parent and the inject return.
\<close>

definition creates_span :: "tracer_impl \<Rightarrow> string \<Rightarrow> carrier \<Rightarrow> bool" where
  "creates_span tr name headers =
     (let root = (case start_active_span tr name None of
                    Inl e \<Rightarrow> False
                  | Inr sc \<Rightarrow>
                      (case inject_ctx tr (ScopeArg sc) headers of
                         Inl e \<Rightarrow> False
                       | Inr h \<Rightarrow> True));
          caught = (\<lambda>e. e = InvalidCarrierException \<or> e = SpanContextCorruptedException)
      in case extract_ctx tr headers of
           Inl e \<Rightarrow> caught e \<and> root
         | Inr span_ctx \<Rightarrow>
             (case start_active_span tr name span_ctx of
                Inl e \<Rightarrow> caught e \<and> root
              | Inr sc \<Rightarrow> True))"

text \<open>
  A sequence of calls in which, on the request key \<open>k\<close>, every end has its own earlier
  begin (\<open>d\<close> counts the begins still open) and every begin gets a scope from the tracer.
  Calls on other keys are free.
\<close>

fun nested_pairs :: "tracer_impl \<Rightarrow> nat \<Rightarrow> nat \<Rightarrow> op list \<Rightarrow> bool" where
  "nested_pairs tr k d [] = True"
| "nested_pairs tr k d (Begin req vf as # ps) =
     (if rid req = k
      then creates_span tr (func_name vf) (strip_headers (META req) Map.empty) \<and>
           nested_pairs tr k (Suc d) ps
      else nested_pairs tr k d ps)"
| "nested_pairs tr k d (End req resp error # ps) =
     (if rid req = k then 0 < d \<and> nested_pairs tr k (d - 1) ps else nested_pairs tr k d ps)"

subsection \<open>Header normalisation as the specification words it\<close>

text \<open>
  Lower-case the key, replace underscores with hyphens, strip a leading
  \<^verbatim>\<open>http-\<close>; the value stays. Lower-casing is given by the list of the upper-case
  letters among the code points 0 to 255, A to Z and the accented capitals 192 to 214 and
  216 to 222, each of which has its lower-case letter 32 places on.
\<close>

definition upper_case_letters :: "nat list" where
  "upper_case_letters = [65 ..< 91] @ [192 ..< 215] @ [216 ..< 223]"

definition spec_lower_case :: "char \<Rightarrow> char" where
  "spec_lower_case c =
     (if (of_char c :: nat) \<in> set upper_case_letters then char_of (of_char c + 32 :: nat) else c)"

definition spec_strip_prefix :: "string \<Rightarrow> string \<Rightarrow> string" where
  "spec_strip_prefix p s = (if take (length p) s = p then drop (length p) s else s)"

definition spec_header_key :: "string \<Rightarrow> string" where
  "spec_header_key k =
     spec_strip_prefix ''http-''
       (map (\<lambda>c. if c = CHR ''_'' then CHR ''-'' else c) (map spec_lower_case k))"

definition spec_carrier :: "(string \<times> string) list \<Rightarrow> carrier" where
  "spec_carrier items = map_of (rev (map (\<lambda>(k, v). (spec_header_key k, v)) items))"

subsection \<open>Concrete inputs\<close>

definition ex_scope :: "string \<Rightarrow> span_ctx option \<Rightarrow> scope" where
  "ex_scope name parent =
     \<lparr>operation_name = name, child_of = parent, tags = Map.empty, logs = [], closed = False,
      set_tag_raises = (\<lambda>key v. None), log_kv_raises = (\<lambda>kv. None), close_raises = None\<rparr>"

text \<open>A tracer that finds a context only when the carrier has a trace id.\<close>

definition ex_extract :: "carrier \<Rightarrow> exc + span_ctx option" where
  "ex_extract c =
     (case c ''x-trace-id'' of
        None \<Rightarrow> Inl SpanContextCorruptedException
      | Some v \<Rightarrow> Inr (Some (length v)))"

definition ex_tracer :: "exc option \<Rightarrow> tracer_impl" where
  "ex_tracer inject_error =
     \<lparr>truthy = True, extract_ctx = ex_extract,
      start_active_span = (\<lambda>name parent. Inr (ex_scope name parent)),
      inject_ctx = (\<lambda>a c. case inject_error of
                             None \<Rightarrow> Inr (c(''x-trace-id'' \<mapsto> ''1''))
                           | Some e \<Rightarrow> Inl e)\<rparr>"

text \<open>A tracer whose extract raises the third exception of the opentracing API.\<close>

definition ex_tracer_unsupported :: tracer_impl where
  "ex_tracer_unsupported =
     \<lparr>truthy = True, extract_ctx = (\<lambda>c. Inl UnsupportedFormatException),
      start_active_span = (\<lambda>name parent. Inr (ex_scope name parent)),
      inject_ctx = (\<lambda>a c. Inr c)\<rparr>"

text \<open>
  A tracer whose inject is the interface's: it writes the trace id of a span context and
  raises when it is handed anything else.
\<close>

definition ex_tracer_strict :: tracer_impl where
  "ex_tracer_strict =
     \<lparr>truthy = True, extract_ctx = ex_extract,
      start_active_span = (\<lambda>name parent. Inr (ex_scope name parent)),
      inject_ctx = (\<lambda>a c. case a of
                             SpanContextArg ctx \<Rightarrow> Inr (c(''x-trace-id'' \<mapsto> ''1''))
                           | ScopeArg sc \<Rightarrow>
                               Inl (AttributeError ''Scope object has no attribute trace_id''))\<rparr>"

text \<open>A tracer that cannot start a span for one operation name.\<close>

definition ex_tracer_picky :: tracer_impl where
  "ex_tracer_picky =
     \<lparr>truthy = True, extract_ctx = ex_extract,
      start_active_span = (\<lambda>name parent. if name = ''view_bad''
                             then Inl (RuntimeError ''no span'')
                             else Inr (ex_scope name parent)),
      inject_ctx = (\<lambda>a c. Inr c)\<rparr>"

definition ex_request :: request where
  "ex_request =
     \<lparr>rid = 1, META = [(''HTTP_X_TRACE_ID'', ''abc''), (''REMOTE_ADDR'', ''10.0.0.1'')],
      request_method = Inr ''GET'', get_full_path = Inr ''/foo'',
      attrs = (\<lambda>a. if a = ''user_id'' then Inr (Some ''42'') else Inr None)\<rparr>"

definition ex_request_plain :: request where
  "ex_request_plain =
     \<lparr>rid = 2, META = [(''REMOTE_ADDR'', ''10.0.0.1'')],
      request_method = Inr ''GET'', get_full_path = Inr ''/bar'', attrs = (\<lambda>a. Inr None)\<rparr>"

definition ex_view :: view_func where
  "ex_view =
     \<lparr>func_name = ''view_foo'', call = (\<lambda>req st. (Inr (Some \<lparr>status_code = Inr 200\<rparr>), st))\<rparr>"

definition ex_view_raising :: "exc \<Rightarrow> view_func" where
  "ex_view_raising e = \<lparr>func_name = ''view_bad'', call = (\<lambda>req st. (Inl e, st))\<rparr>"

definition ex_state :: "tracer_impl \<Rightarrow> cb_arg \<Rightarrow> state" where
  "ex_state tr cb =
     \<lparr>tracing = \<lparr>tracer_implementation = Some tr, start_span_cb = cb,
                 current_scopes = Map.empty, trace_all = False\<rparr>,
      opentracing_tracer = tr, complete = False,
      heap = (\<lambda>r. ex_scope [] None), next_ref = 0, events = []\<rparr>"

definition ex_st :: state where
  "ex_st = ex_state (ex_tracer None) CbNone"

definition ex_cb_raising :: "exc \<Rightarrow> cb_arg" where
  "ex_cb_raising e = CbCallable (\<lambda>sp req. (sp, Some e))"

text \<open>A returned value that is no response: it has no status code.\<close>

definition ex_not_a_response :: response where
  "ex_not_a_response =
     \<lparr>status_code = Inl (AttributeError ''str object has no attribute status_code'')\<rparr>"

subsection \<open>What the helpers leave unchanged\<close>

lemma and_then_keeps:
  assumes "\<And>s. g (snd (m s)) = g s" and "\<And>x s. g (snd (f x s)) = g s"
  shows "g (snd (and_then m f st)) = g st"
proof (cases "m st")
  case (Pair res st1)
  with assms(1) [of st] have "g st1 = g st" by simp
  with Pair assms(2) show ?thesis
    by (cases res) (simp_all add: and_then_def)
qed

lemma and_then_Inr:
  "fst (and_then m f st) = Inr y \<Longrightarrow>
   \<exists>x. fst (m st) = Inr x \<and> fst (f x (snd (m st))) = Inr y"
  by (cases "m st") (auto simp: and_then_def split: sum.splits)

lemma and_then_Inl:
  "fst (and_then m f st) = Inl e \<Longrightarrow>
   fst (m st) = Inl e \<or> (\<exists>x. fst (m st) = Inr x \<and> fst (f x (snd (m st))) = Inl e)"
  by (cases "m st") (auto simp: and_then_def split: sum.splits)

lemma value_of_simps [simp]: "snd (value_of x st) = st" "fst (value_of x st) = x"
  by (simp_all add: value_of_def)

lemma set_tag_fields [simp]:
  "tracing (snd (set_tag r k v st)) = tracing st"
  "events (snd (set_tag r k v st)) = events st"
  "opentracing_tracer (snd (set_tag r k v st)) = opentracing_tracer st"
  by (simp_all add: set_tag_def split: option.splits)

lemma log_kv_fields [simp]:
  "tracing (snd (log_kv r kv st)) = tracing st"
  "events (snd (log_kv r kv st)) = events st"
  "opentracing_tracer (snd (log_kv r kv st)) = opentracing_tracer st"
  by (simp_all add: log_kv_def split: option.splits)

lemma close_fields [simp]:
  "tracing (snd (close r st)) = tracing st"
  "events (snd (close r st)) = events st"
  "opentracing_tracer (snd (close r st)) = opentracing_tracer st"
  by (simp_all add: close_def split: option.splits)

lemma emit_fields [simp]:
  "tracing (emit ev st) = tracing st"
  "heap (emit ev st) = heap st"
  "next_ref (emit ev st) = next_ref st"
  "opentracing_tracer (emit ev st) = opentracing_tracer st"
  "events (emit ev st) = events st @ [ev]"
  by (simp_all add: emit_def)

lemma tracer_cong: "tracing s = tracing t \<Longrightarrow> opentracing_tracer s = opentracing_tracer t \<Longrightarrow>
  tracer s = tracer t"
  by (simp add: tracer_def split: option.splits)

lemma tracer_emit [simp]: "tracer (emit ev st) = tracer st"
  by (rule tracer_cong) simp_all

lemma call_start_active_span_fields [simp]:
  "tracing (snd (call_start_active_span name parent st)) = tracing st"
  "opentracing_tracer (snd (call_start_active_span name parent st)) = opentracing_tracer st"
  by (simp_all add: call_start_active_span_def Let_def split: sum.splits)

lemma start_from_trace_info_fields [simp]:
  "tracing (snd (start_from_trace_info name headers st)) = tracing st"
  "opentracing_tracer (snd (start_from_trace_info name headers st)) = opentracing_tracer st"
  by (simp_all add: start_from_trace_info_def Let_def split: sum.splits)

lemma start_root_and_inject_fields [simp]:
  "tracing (snd (start_root_and_inject name headers st)) = tracing st"
  "opentracing_tracer (snd (start_root_and_inject name headers st)) = opentracing_tracer st"
proof -
  obtain res st1 where c: "call_start_active_span name None st = (res, st1)"
    by (cases "call_start_active_span name None st")
  then have "tracing st1 = tracing st" "opentracing_tracer st1 = opentracing_tracer st"
    using call_start_active_span_fields [of name None st] by simp_all
  with c show "tracing (snd (start_root_and_inject name headers st)) = tracing st"
    "opentracing_tracer (snd (start_root_and_inject name headers st)) = opentracing_tracer st"
    by (simp_all add: start_root_and_inject_def Let_def split: sum.splits)
qed

lemma new_scope_fields [simp]:
  "tracing (snd (new_scope name headers st)) = tracing st"
  "opentracing_tracer (snd (new_scope name headers st)) = opentracing_tracer st"
proof -
  obtain res st1 where c: "start_from_trace_info name headers st = (res, st1)"
    by (cases "start_from_trace_info name headers st")
  then have t: "tracing st1 = tracing st" "opentracing_tracer st1 = opentracing_tracer st"
    using start_from_trace_info_fields [of name headers st] by simp_all
  have "tracing (snd (start_root_and_inject name headers st1)) = tracing st1"
    "opentracing_tracer (snd (start_root_and_inject name headers st1)) = opentracing_tracer st1"
    by simp_all
  with c t show "tracing (snd (new_scope name headers st)) = tracing st"
    "opentracing_tracer (snd (new_scope name headers st)) = opentracing_tracer st"
    by (simp_all add: new_scope_def split: sum.splits)
qed

lemma traced_attributes_keeps:
  assumes "\<And>k v s. g (snd (set_tag r k v s)) = g s"
  shows "g (snd (traced_attributes req r as st)) = g st"
proof (induction as arbitrary: st)
  case Nil
  show ?case by simp
next
  case (Cons a as)
  show ?case
  proof (cases "attrs req a")
    case (Inl e)
    then show ?thesis by simp
  next
    case (Inr v)
    show ?thesis
    proof (cases v)
      case None
      with Inr show ?thesis by (simp add: Cons.IH)
    next
      case (Some payload)
      obtain res st1 where c: "set_tag r a (TagStr payload) st = (res, st1)"
        by (cases "set_tag r a (TagStr payload) st")
      with assms [of a "TagStr payload" st] have "g st1 = g st" by simp
      with Inr Some c show ?thesis
        by (cases res) (simp_all add: Cons.IH)
    qed
  qed
qed

lemma traced_attributes_fields [simp]:
  "tracing (snd (traced_attributes req r as st)) = tracing st"
  "events (snd (traced_attributes req r as st)) = events st"
  "opentracing_tracer (snd (traced_attributes req r as st)) = opentracing_tracer st"
  by (rule traced_attributes_keeps, simp)+

lemma standard_tags_fields [simp]:
  "tracing (snd (standard_tags req r st)) = tracing st"
  "events (snd (standard_tags req r st)) = events st"
  "opentracing_tracer (snd (standard_tags req r st)) = opentracing_tracer st"
  unfolding standard_tags_def
  by (intro and_then_keeps; simp)+

lemma call_start_span_cb_fields [simp]:
  "tracing (snd (call_start_span_cb r req st)) = tracing st"
  "events (snd (call_start_span_cb r req st)) = events st"
  "opentracing_tracer (snd (call_start_span_cb r req st)) = opentracing_tracer st"
  by (simp_all add: call_start_span_cb_def Let_def split: cb_arg.splits option.splits)

lemma push_scope_scopes:
  "current_scopes (tracing (push_scope req r st)) =
     (current_scopes (tracing st))(rid req \<mapsto> stack_of st (rid req) @ [Some r])"
  by (simp add: push_scope_def stack_of_def split: option.splits)

lemma push_scope_fields [simp]:
  "tracer_implementation (tracing (push_scope req r st)) = tracer_implementation (tracing st)"
  "start_span_cb (tracing (push_scope req r st)) = start_span_cb (tracing st)"
  "trace_all (tracing (push_scope req r st)) = trace_all (tracing st)"
  "events (push_scope req r st) = events st"
  "opentracing_tracer (push_scope req r st) = opentracing_tracer st"
  by (simp_all add: push_scope_def)

lemma after_push_fields [simp]:
  "tracing (snd (after_push req r as st)) = tracing st"
  "events (snd (after_push req r as st)) = events st"
  "opentracing_tracer (snd (after_push req r as st)) = opentracing_tracer st"
  unfolding after_push_def
  by (intro and_then_keeps; simp)+

lemma after_push_result:
  "fst (after_push req r as st) = Inr x \<Longrightarrow> x = Some r"
  unfolding after_push_def
  by (auto dest!: and_then_Inr)

subsection \<open>Push and pop\<close>

lemma apply_tracing_body_scopes:
  "current_scopes (tracing (snd (apply_tracing_body req vf as st))) =
     (case fst (new_scope (func_name vf) (strip_headers (META req) Map.empty) st) of
        Inl e \<Rightarrow> current_scopes (tracing st)
      | Inr r \<Rightarrow> (current_scopes (tracing st))(rid req \<mapsto> stack_of st (rid req) @ [Some r]))"
proof -
  obtain res st1 where c: "new_scope (func_name vf) (strip_headers (META req) Map.empty) st = (res, st1)"
    by (cases "new_scope (func_name vf) (strip_headers (META req) Map.empty) st")
  then have t: "tracing st1 = tracing st"
    using new_scope_fields(1) [of "func_name vf" "strip_headers (META req) Map.empty" st] by simp
  then have "stack_of st1 (rid req) = stack_of st (rid req)"
    by (simp add: stack_of_def)
  with c t show ?thesis
    by (cases res) (simp_all add: apply_tracing_body_def push_scope_scopes)
qed

lemma apply_tracing_tracing:
  "tracing (snd (apply_tracing req vf as st)) = tracing (snd (apply_tracing_body req vf as st))"
  "opentracing_tracer (snd (apply_tracing req vf as st)) =
     opentracing_tracer (snd (apply_tracing_body req vf as st))"
  by (cases "apply_tracing_body req vf as st"; simp add: apply_tracing_def split: sum.splits)+

lemma apply_tracing_scopes:
  "current_scopes (tracing (snd (apply_tracing req vf as st))) =
     (case fst (new_scope (func_name vf) (strip_headers (META req) Map.empty) st) of
        Inl e \<Rightarrow> current_scopes (tracing st)
      | Inr r \<Rightarrow> (current_scopes (tracing st))(rid req \<mapsto> stack_of st (rid req) @ [Some r]))"
  by (simp add: apply_tracing_tracing apply_tracing_body_scopes)

lemma apply_tracing_returns_scope:
  assumes "fst (apply_tracing req vf as st) = Inr (Some r)"
  shows "fst (new_scope (func_name vf) (strip_headers (META req) Map.empty) st) = Inr r"
proof -
  obtain res st1 where c: "new_scope (func_name vf) (strip_headers (META req) Map.empty) st = (res, st1)"
    by (cases "new_scope (func_name vf) (strip_headers (META req) Map.empty) st")
  show ?thesis
  proof (cases res)
    case (Inl e)
    with c assms show ?thesis
      by (simp add: apply_tracing_def apply_tracing_body_def split: if_splits)
  next
    case (Inr r')
    let ?s = "push_scope req r' st1"
    obtain res2 st2 where a: "after_push req r' as ?s = (res2, st2)"
      by (cases "after_push req r' as ?s")
    with c Inr assms have "res2 = Inr (Some r)"
      by (cases res2) (auto simp: apply_tracing_def apply_tracing_body_def split: if_splits)
    with a after_push_result [of req r' as ?s "Some r"] have "r' = r" by simp
    with c Inr show ?thesis by simp
  qed
qed

lemma apply_tracing_push:
  assumes "fst (apply_tracing req vf as st) = Inr (Some r)"
  shows "stack_of (snd (apply_tracing req vf as st)) (rid req) = stack_of st (rid req) @ [Some r]"
    and "k \<noteq> rid req \<Longrightarrow> stack_of (snd (apply_tracing req vf as st)) k = stack_of st k"
  using apply_tracing_returns_scope [OF assms]
  by (simp_all add: stack_of_def apply_tracing_scopes)

lemma tag_error_fields [simp]:
  "tracing (snd (tag_error r err st)) = tracing st"
  "events (snd (tag_error r err st)) = events st"
  "opentracing_tracer (snd (tag_error r err st)) = opentracing_tracer st"
  unfolding tag_error_def
  by (cases err; simp; intro and_then_keeps; simp)+

lemma tag_status_fields [simp]:
  "tracing (snd (tag_status r resp st)) = tracing st"
  "events (snd (tag_status r resp st)) = events st"
  "opentracing_tracer (snd (tag_status r resp st)) = opentracing_tracer st"
  unfolding tag_status_def
  by (cases resp; simp; intro and_then_keeps; simp)+

text \<open>Lines 144 to 153, on the popped scope.\<close>

lemma after_pop_fields:
  "tracing (snd (and_then (tag_error r err) (\<lambda>_. and_then (tag_status r resp) (\<lambda>_. close r)) st)) = tracing st"
  "events (snd (and_then (tag_error r err) (\<lambda>_. and_then (tag_status r resp) (\<lambda>_. close r)) st)) = events st"
  "opentracing_tracer (snd (and_then (tag_error r err) (\<lambda>_. and_then (tag_status r resp) (\<lambda>_. close r)) st)) =
     opentracing_tracer st"
  by (intro and_then_keeps; simp)+

lemma finish_tracing_body_scopes:
  "current_scopes (tracing (snd (finish_tracing_body req resp err st))) =
     (case current_scopes (tracing st) (rid req) of
        None \<Rightarrow> current_scopes (tracing st)
      | Some scopes \<Rightarrow>
          if scopes = [] then current_scopes (tracing st)
          else if butlast scopes = [] then (current_scopes (tracing st))(rid req := None)
          else (current_scopes (tracing st))(rid req \<mapsto> butlast scopes))"
  by (auto simp: finish_tracing_body_def Let_def after_pop_fields split: option.splits)

lemma finish_tracing_tracing:
  "tracing (snd (finish_tracing req resp err st)) = tracing (snd (finish_tracing_body req resp err st))"
  "opentracing_tracer (snd (finish_tracing req resp err st)) =
     opentracing_tracer (snd (finish_tracing_body req resp err st))"
  by (cases "finish_tracing_body req resp err st"; simp add: finish_tracing_def split: sum.splits)+

lemma finish_tracing_scopes:
  "current_scopes (tracing (snd (finish_tracing req resp err st))) =
     (case current_scopes (tracing st) (rid req) of
        None \<Rightarrow> current_scopes (tracing st)
      | Some scopes \<Rightarrow>
          if scopes = [] then current_scopes (tracing st)
          else if butlast scopes = [] then (current_scopes (tracing st))(rid req := None)
          else (current_scopes (tracing st))(rid req \<mapsto> butlast scopes))"
  by (simp add: finish_tracing_tracing finish_tracing_body_scopes)

lemma finish_tracing_stack:
  "stack_of (snd (finish_tracing req resp err st)) k =
     (if k = rid req then butlast (stack_of st k) else stack_of st k)"
  by (auto simp: stack_of_def finish_tracing_scopes split: option.splits)

lemma begins_stack:
  "\<forall>b \<in> set bs. rid (fst b) = k \<Longrightarrow>
   fst (begins bs st) = map (\<lambda>r. Inr (Some r)) rs \<Longrightarrow>
   stack_of (snd (begins bs st)) k = stack_of st k @ map Some rs"
proof (induction bs arbitrary: st rs)
  case Nil
  then show ?case by simp
next
  case (Cons b bs)
  obtain req vf as where b: "b = (req, vf, as)" by (cases b)
  from Cons.prems(2) b obtain r rs' where rs: "rs = r # rs'"
    and h: "fst (apply_tracing req vf as st) = Inr (Some r)"
    and t: "fst (begins bs (snd (apply_tracing req vf as st))) = map (\<lambda>r. Inr (Some r)) rs'"
    by (cases rs) auto
  from Cons.prems(1) b have k: "rid req = k" and ks: "\<forall>b \<in> set bs. rid (fst b) = k" by auto
  have "stack_of (snd (begins bs (snd (apply_tracing req vf as st)))) k =
        stack_of (snd (apply_tracing req vf as st)) k @ map Some rs'"
    by (rule Cons.IH [OF ks t])
  with apply_tracing_push(1) [OF h] k b rs show ?case by simp
qed

lemma ends_append:
  "ends (es @ [(req, resp, err)]) st = snd (finish_tracing req resp err (ends es st))"
  by (induction es arbitrary: st) auto

lemma ends_stack:
  "\<forall>e \<in> set es. rid (fst e) = k \<Longrightarrow>
   stack_of (ends es st) k = take (length (stack_of st k) - length es) (stack_of st k)"
proof (induction es arbitrary: st)
  case Nil
  then show ?case by simp
next
  case (Cons e es)
  obtain req resp err where e: "e = (req, resp, err)" by (cases e)
  from Cons.prems e have k: "rid req = k" and ks: "\<forall>e \<in> set es. rid (fst e) = k" by auto
  have "stack_of (ends es (snd (finish_tracing req resp err st))) k =
        take (length (butlast (stack_of st k)) - length es) (butlast (stack_of st k))"
    using Cons.IH [OF ks, of "snd (finish_tracing req resp err st)"] k
    by (simp add: finish_tracing_stack)
  then show ?case using e
    by (simp add: butlast_conv_take min_def)
qed

subsection \<open>What an end does to the scope it popped\<close>

lemma set_tag_methods [simp]:
  "set_tag_raises (heap (snd (set_tag r k v st)) r') = set_tag_raises (heap st r')"
  "log_kv_raises (heap (snd (set_tag r k v st)) r') = log_kv_raises (heap st r')"
  "close_raises (heap (snd (set_tag r k v st)) r') = close_raises (heap st r')"
  by (simp_all add: set_tag_def split: option.splits)

lemma log_kv_methods [simp]:
  "set_tag_raises (heap (snd (log_kv r kv st)) r') = set_tag_raises (heap st r')"
  "log_kv_raises (heap (snd (log_kv r kv st)) r') = log_kv_raises (heap st r')"
  "close_raises (heap (snd (log_kv r kv st)) r') = close_raises (heap st r')"
  by (simp_all add: log_kv_def split: option.splits)

lemma tag_error_methods [simp]:
  "set_tag_raises (heap (snd (tag_error r err st)) r') = set_tag_raises (heap st r')"
  "close_raises (heap (snd (tag_error r err st)) r') = close_raises (heap st r')"
  unfolding tag_error_def
  by (cases err; simp; rule and_then_keeps; simp)+

lemma tag_status_methods [simp]:
  "close_raises (heap (snd (tag_status r resp st)) r') = close_raises (heap st r')"
  unfolding tag_status_def
  by (cases resp; simp; rule and_then_keeps; simp)

lemma tag_error_returns:
  assumes "case err of None \<Rightarrow> True
           | Some e \<Rightarrow> set_tag_raises (heap st r) ERROR (TagBool True) = None \<and>
               log_kv_raises (heap st r) [(''event'', LogStr ERROR), (''error.object'', LogExc e)] = None"
  shows "tag_error r err st =
     (Inr (), st\<lparr>heap := (heap st)(r :=
        (case err of
           None \<Rightarrow> heap st r
         | Some e \<Rightarrow> (heap st r)\<lparr>tags := (tags (heap st r))(ERROR \<mapsto> TagBool True),
             logs := logs (heap st r) @ [ [(''event'', LogStr ERROR), (''error.object'', LogExc e)] ]\<rparr>))\<rparr>)"
  using assms
  by (cases err) (simp_all add: tag_error_def and_then_def set_tag_def log_kv_def)

lemma tag_status_returns:
  assumes "case resp of None \<Rightarrow> True
           | Some rs \<Rightarrow> (case status_code rs of Inl e \<Rightarrow> False
               | Inr code \<Rightarrow> set_tag_raises (heap st r) HTTP_STATUS_CODE (TagInt code) = None)"
  shows "tag_status r resp st =
     (Inr (), st\<lparr>heap := (heap st)(r :=
        (case resp of
           None \<Rightarrow> heap st r
         | Some rs \<Rightarrow> (heap st r)\<lparr>tags := (tags (heap st r))
             (HTTP_STATUS_CODE \<mapsto> TagInt (projr (status_code rs)))\<rparr>))\<rparr>)"
  using assms
  by (cases resp)
     (auto simp: tag_status_def and_then_def set_tag_def value_of_def split: sum.splits)

lemma and_then_returns: "fst (m st) = Inr x \<Longrightarrow> and_then m f st = f x (snd (m st))"
  by (cases "m st") (simp add: and_then_def)

lemma after_pop_returns:
  assumes "span_calls_return (heap st r) resp err"
  shows "fst (and_then (tag_error r err) (\<lambda>_. and_then (tag_status r resp) (\<lambda>_. close r)) st) = Inr ()"
    and "heap (snd (and_then (tag_error r err) (\<lambda>_. and_then (tag_status r resp) (\<lambda>_. close r)) st)) r =
     (let s1 = (case err of
                  None \<Rightarrow> heap st r
                | Some e \<Rightarrow> (heap st r)\<lparr>tags := (tags (heap st r))(ERROR \<mapsto> TagBool True),
                      logs := logs (heap st r) @ [ [(''event'', LogStr ERROR), (''error.object'', LogExc e)] ]\<rparr>);
          s2 = (case resp of
                  None \<Rightarrow> s1
                | Some rs \<Rightarrow> s1\<lparr>tags := (tags s1)(HTTP_STATUS_CODE \<mapsto> TagInt (projr (status_code rs)))\<rparr>)
      in s2\<lparr>closed := True\<rparr>)"
proof -
  from assms have e: "case err of None \<Rightarrow> True
           | Some e \<Rightarrow> set_tag_raises (heap st r) ERROR (TagBool True) = None \<and>
               log_kv_raises (heap st r) [(''event'', LogStr ERROR), (''error.object'', LogExc e)] = None"
    by (simp add: span_calls_return_def)
  note te = tag_error_returns [OF e]
  let ?st2 = "snd (tag_error r err st)"
  have f2: "fst (tag_error r err st) = Inr ()" by (simp add: te)
  have h2: "heap ?st2 r =
      (case err of
         None \<Rightarrow> heap st r
       | Some e \<Rightarrow> (heap st r)\<lparr>tags := (tags (heap st r))(ERROR \<mapsto> TagBool True),
           logs := logs (heap st r) @ [ [(''event'', LogStr ERROR), (''error.object'', LogExc e)] ]\<rparr>)"
    by (simp add: te)
  from assms have s: "case resp of None \<Rightarrow> True
           | Some rs \<Rightarrow> (case status_code rs of Inl e \<Rightarrow> False
               | Inr code \<Rightarrow> set_tag_raises (heap ?st2 r) HTTP_STATUS_CODE (TagInt code) = None)"
    by (simp add: span_calls_return_def split: option.splits sum.splits)
  note ts = tag_status_returns [OF s]
  let ?st3 = "snd (tag_status r resp ?st2)"
  have f3: "fst (tag_status r resp ?st2) = Inr ()" by (simp add: ts)
  have h3: "heap ?st3 r =
      (case resp of
         None \<Rightarrow> heap ?st2 r
       | Some rs \<Rightarrow> (heap ?st2 r)\<lparr>tags := (tags (heap ?st2 r))
           (HTTP_STATUS_CODE \<mapsto> TagInt (projr (status_code rs)))\<rparr>)"
    by (simp add: ts)
  have c: "close_raises (heap ?st3 r) = None"
    using assms by (simp add: span_calls_return_def)
  have run: "and_then (tag_error r err) (\<lambda>_. and_then (tag_status r resp) (\<lambda>_. close r)) st =
      close r ?st3"
    using f2 f3
    by (simp add: and_then_returns [of "tag_error r err" st "()"]
        and_then_returns [of "tag_status r resp" "snd (tag_error r err st)" "()"])
  show "fst (and_then (tag_error r err) (\<lambda>_. and_then (tag_status r resp) (\<lambda>_. close r)) st) = Inr ()"
    using c by (simp add: run close_def)
  have a: "heap (snd (close r ?st3)) r = (heap ?st3 r)\<lparr>closed := True\<rparr>"
    using c by (simp add: close_def)
  note b = h3 [unfolded h2]
  show "heap (snd (and_then (tag_error r err) (\<lambda>_. and_then (tag_status r resp) (\<lambda>_. close r)) st)) r =
     (let s1 = (case err of
                  None \<Rightarrow> heap st r
                | Some e \<Rightarrow> (heap st r)\<lparr>tags := (tags (heap st r))(ERROR \<mapsto> TagBool True),
                      logs := logs (heap st r) @ [ [(''event'', LogStr ERROR), (''error.object'', LogExc e)] ]\<rparr>);
          s2 = (case resp of
                  None \<Rightarrow> s1
                | Some rs \<Rightarrow> s1\<lparr>tags := (tags s1)(HTTP_STATUS_CODE \<mapsto> TagInt (projr (status_code rs)))\<rparr>)
      in s2\<lparr>closed := True\<rparr>)"
    unfolding run a b Let_def by (rule refl)
qed

lemma finish_tracing_body_popped:
  assumes "stack_of st (rid req) \<noteq> []" and "last (stack_of st (rid req)) = Some r"
  shows "\<exists>st1. heap st1 = heap st \<and>
     finish_tracing_body req resp err st =
       and_then (tag_error r err) (\<lambda>_. and_then (tag_status r resp) (\<lambda>_. close r)) st1"
proof -
  obtain scopes where sc: "current_scopes (tracing st) (rid req) = Some scopes" "scopes \<noteq> []"
    "last scopes = Some r"
    using assms by (auto simp: stack_of_def split: option.splits)
  define st1 where "st1 = st\<lparr>tracing := (tracing st)\<lparr>current_scopes :=
                (if butlast scopes = []
                 then (current_scopes (tracing st))(rid req := None)
                 else (current_scopes (tracing st))(rid req \<mapsto> butlast scopes))\<rparr>\<rparr>"
  have "heap st1 = heap st" by (simp add: st1_def)
  moreover have "finish_tracing_body req resp err st =
      and_then (tag_error r err) (\<lambda>_. and_then (tag_status r resp) (\<lambda>_. close r)) st1"
    using sc by (simp add: finish_tracing_body_def Let_def st1_def)
  ultimately show ?thesis by blast
qed

lemma finish_tracing_body_heap:
  assumes "stack_of st (rid req) \<noteq> []" and "last (stack_of st (rid req)) = Some r"
    and "span_calls_return (heap st r) resp err"
  shows "fst (finish_tracing_body req resp err st) = Inr ()"
    and "heap (snd (finish_tracing_body req resp err st)) r =
     (let s1 = (case err of
                  None \<Rightarrow> heap st r
                | Some e \<Rightarrow> (heap st r)\<lparr>tags := (tags (heap st r))(ERROR \<mapsto> TagBool True),
                      logs := logs (heap st r) @ [ [(''event'', LogStr ERROR), (''error.object'', LogExc e)] ]\<rparr>);
          s2 = (case resp of
                  None \<Rightarrow> s1
                | Some rs \<Rightarrow> s1\<lparr>tags := (tags s1)(HTTP_STATUS_CODE \<mapsto> TagInt (projr (status_code rs)))\<rparr>)
      in s2\<lparr>closed := True\<rparr>)"
proof -
  from finish_tracing_body_popped [OF assms(1,2)] obtain st1 where
    h: "heap st1 = heap st" and
    b: "finish_tracing_body req resp err st =
       and_then (tag_error r err) (\<lambda>_. and_then (tag_status r resp) (\<lambda>_. close r)) st1"
    by blast
  from assms(3) h have a: "span_calls_return (heap st1 r) resp err" by simp
  from after_pop_returns(1) [OF a] b
  show "fst (finish_tracing_body req resp err st) = Inr ()" by simp
  from after_pop_returns(2) [OF a]
  show "heap (snd (finish_tracing_body req resp err st)) r =
     (let s1 = (case err of
                  None \<Rightarrow> heap st r
                | Some e \<Rightarrow> (heap st r)\<lparr>tags := (tags (heap st r))(ERROR \<mapsto> TagBool True),
                      logs := logs (heap st r) @ [ [(''event'', LogStr ERROR), (''error.object'', LogExc e)] ]\<rparr>);
          s2 = (case resp of
                  None \<Rightarrow> s1
                | Some rs \<Rightarrow> s1\<lparr>tags := (tags s1)(HTTP_STATUS_CODE \<mapsto> TagInt (projr (status_code rs)))\<rparr>)
      in s2\<lparr>closed := True\<rparr>)"
    unfolding b h .
qed

lemma finish_tracing_heap:
  assumes "stack_of st (rid req) \<noteq> []" and "last (stack_of st (rid req)) = Some r"
    and "span_calls_return (heap st r) resp err"
  shows "finish_tracing req resp err st = finish_tracing_body req resp err st"
  using finish_tracing_body_heap(1) [OF assms]
  by (cases "finish_tracing_body req resp err st") (simp add: finish_tracing_def)

lemma finish_tracing_closes:
  assumes "stack_of st (rid req) \<noteq> []" and "last (stack_of st (rid req)) = Some r"
    and "span_calls_return (heap st r) resp err"
  shows "closed (heap (snd (finish_tracing req resp err st)) r)"
  by (simp add: finish_tracing_heap [OF assms] finish_tracing_body_heap(2) [OF assms] Let_def
      split: option.splits)

subsection \<open>Scope stacks\<close>

text \<open>
  Property C1, as the code has it. When K consecutive calls of \<^verbatim>\<open>_apply_tracing\<close> on one
  request key each return a scope, each has appended exactly that scope to the end of the
  key's list. N calls of \<^verbatim>\<open>_finish_tracing\<close> on the key, with N between 1 and K, then
  remove the last N entries: the N-th of them pops the scope returned by the
  (K - N + 1)-th begin, which is \<open>rs ! (K - N)\<close> counting from zero, and closes it when the
  calls it makes on that scope return.
\<close>

theorem scope_stack_lifo:
  assumes "\<forall>b \<in> set bs. rid (fst b) = k"
    and "fst (begins bs st) = map (\<lambda>r. Inr (Some r)) rs"
    and "\<forall>e \<in> set es. rid (fst e) = k"
    and "es \<noteq> []" and "length es \<le> length rs"
  shows "stack_of (snd (begins bs st)) k = stack_of st k @ map Some rs \<and>
         stack_of (ends es (snd (begins bs st))) k =
           stack_of st k @ map Some (take (length rs - length es) rs) \<and>
         (span_calls_return
            (heap (ends (butlast es) (snd (begins bs st))) (rs ! (length rs - length es)))
            (fst (snd (last es))) (snd (snd (last es))) \<longrightarrow>
          closed (heap (ends es (snd (begins bs st))) (rs ! (length rs - length es))))"
proof -
  let ?s1 = "snd (begins bs st)"
  let ?K = "length rs" and ?N = "length es"
  have pushed: "stack_of ?s1 k = stack_of st k @ map Some rs"
    by (rule begins_stack [OF assms(1,2)])
  have popped: "stack_of (ends es ?s1) k = stack_of st k @ map Some (take (?K - ?N) rs)"
    using assms(5) by (simp add: ends_stack [OF assms(3)] pushed take_map)
  obtain es' e where es: "es = es' @ [e]"
    using assms(4) by (cases es rule: rev_cases) auto
  obtain req resp err where e: "e = (req, resp, err)" by (cases e)
  from assms(3) es e have k: "rid req = k" and ks: "\<forall>e \<in> set es'. rid (fst e) = k" by auto
  let ?s2 = "ends es' ?s1"
  have idx: "?K - length es' = Suc (?K - ?N)"
    using assms(5) es by simp
  have before: "stack_of ?s2 k = stack_of st k @ map Some (take (Suc (?K - ?N)) rs)"
    using idx by (simp add: ends_stack [OF ks] pushed take_map)
  have lt: "?K - ?N < ?K" using assms(4,5) by (cases es) auto
  then have "take (Suc (?K - ?N)) rs = take (?K - ?N) rs @ [rs ! (?K - ?N)]"
    by (simp add: take_Suc_conv_app_nth)
  with before have ne: "stack_of ?s2 (rid req) \<noteq> []"
    and la: "last (stack_of ?s2 (rid req)) = Some (rs ! (?K - ?N))"
    using k by simp_all
  have "closed (heap (ends es ?s1) (rs ! (?K - ?N)))"
    if "span_calls_return (heap ?s2 (rs ! (?K - ?N))) resp err"
    using finish_tracing_closes [OF ne la that] es e by (simp add: ends_append)
  moreover have "butlast es = es'" "fst (snd (last es)) = resp" "snd (snd (last es)) = err"
    using es e by simp_all
  ultimately show ?thesis using pushed popped by simp
qed




text \<open>
  Property C7, as the code has it. An end that pops a scope, when the calls it makes on
  the scope return: with an error it sets the error tag to true and logs the event with the
  error object; with a response it sets the status code tag to the response's status code;
  and it closes the scope.
\<close>

theorem finish_tracing_tags_and_closes:
  assumes "stack_of st (rid req) \<noteq> []" and "last (stack_of st (rid req)) = Some r"
    and "span_calls_return (heap st r) resp err"
  shows "closed (heap (snd (finish_tracing req resp err st)) r) \<and>
    (\<forall>e. err = Some e \<longrightarrow>
       tags (heap (snd (finish_tracing req resp err st)) r) ERROR = Some (TagBool True) \<and>
       logs (heap (snd (finish_tracing req resp err st)) r) =
         logs (heap st r) @ [ [(''event'', LogStr ERROR), (''error.object'', LogExc e)] ]) \<and>
    (\<forall>rs. resp = Some rs \<longrightarrow>
       (\<exists>code. status_code rs = Inr code \<and>
          tags (heap (snd (finish_tracing req resp err st)) r) HTTP_STATUS_CODE =
            Some (TagInt code))) \<and>
    stack_of (snd (finish_tracing req resp err st)) (rid req) = butlast (stack_of st (rid req)) \<and>
    fst (finish_tracing req resp err st) = Inr ()"
proof -
  let ?st' = "snd (finish_tracing req resp err st)"
  have h: "heap ?st' r =
     (let s1 = (case err of
                  None \<Rightarrow> heap st r
                | Some e \<Rightarrow> (heap st r)\<lparr>tags := (tags (heap st r))(ERROR \<mapsto> TagBool True),
                      logs := logs (heap st r) @ [ [(''event'', LogStr ERROR), (''error.object'', LogExc e)] ]\<rparr>);
          s2 = (case resp of
                  None \<Rightarrow> s1
                | Some rs \<Rightarrow> s1\<lparr>tags := (tags s1)(HTTP_STATUS_CODE \<mapsto> TagInt (projr (status_code rs)))\<rparr>)
      in s2\<lparr>closed := True\<rparr>)"
    using finish_tracing_body_heap(2) [OF assms] by (simp add: finish_tracing_heap [OF assms])
  have a: "closed (heap ?st' r)"
    by (rule finish_tracing_closes [OF assms])
  have b: "tags (heap ?st' r) ERROR = Some (TagBool True) \<and>
       logs (heap ?st' r) =
         logs (heap st r) @ [ [(''event'', LogStr ERROR), (''error.object'', LogExc e)] ]"
    if "err = Some e" for e
    using h that
    by (simp add: Let_def ERROR_def HTTP_STATUS_CODE_def split: option.splits)
  have c: "\<exists>code. status_code rs = Inr code \<and>
          tags (heap ?st' r) HTTP_STATUS_CODE = Some (TagInt code)"
    if "resp = Some rs" for rs
  proof -
    from assms(3) that obtain code where "status_code rs = Inr code"
      by (cases "status_code rs") (simp_all add: span_calls_return_def)
    with h that show ?thesis
      by (simp add: Let_def)
  qed
  have d: "stack_of ?st' (rid req) = butlast (stack_of st (rid req))"
    by (simp add: finish_tracing_stack)
  have e: "fst (finish_tracing req resp err st) = Inr ()"
    using finish_tracing_body_heap(1) [OF assms] by (simp add: finish_tracing_heap [OF assms])
  from a b c d e show ?thesis by blast
qed

subsection \<open>Nested begin and end pairs\<close>

lemma call_start_active_span_result:
  "fst (call_start_active_span name parent st) =
     (case start_active_span (tracer st) name parent of Inl e \<Rightarrow> Inl e | Inr sc \<Rightarrow> Inr (next_ref st))"
  by (simp add: call_start_active_span_def Let_def split: sum.splits)

lemma call_start_active_span_heap:
  "start_active_span (tracer st) name parent = Inr sc \<Longrightarrow>
   heap (snd (call_start_active_span name parent st)) (next_ref st) = sc"
  by (simp add: call_start_active_span_def Let_def)

lemma call_start_active_span_tracer [simp]:
  "tracer (snd (call_start_active_span name parent st)) = tracer st"
  by (rule tracer_cong) simp_all

lemma creates_span_new_scope:
  assumes "creates_span (tracer st) name headers"
  shows "\<exists>r. fst (new_scope name headers st) = Inr r"
proof -
  let ?st1 = "emit (Extract headers) st"
  have root: "\<exists>r. fst (start_root_and_inject name headers s) = Inr r"
    if "tracer s = tracer st"
      and "case start_active_span (tracer st) name None of
             Inl e \<Rightarrow> False
           | Inr sc \<Rightarrow> (case inject_ctx (tracer st) (ScopeArg sc) headers of
                          Inl e \<Rightarrow> False | Inr h \<Rightarrow> True)" for s
  proof -
    from that(2) obtain sc h where sc: "start_active_span (tracer st) name None = Inr sc"
      and inj: "inject_ctx (tracer st) (ScopeArg sc) headers = Inr h"
      by (auto split: sum.splits)
    obtain res s1 where c: "call_start_active_span name None s = (res, s1)"
      by (cases "call_start_active_span name None s")
    with call_start_active_span_result [of name None s] sc that(1)
    have res: "res = Inr (next_ref s)" by simp
    from call_start_active_span_heap [of s name None sc] sc that(1) c
    have "heap s1 (next_ref s) = sc" by simp
    with c res inj that(1) show ?thesis
      by (simp add: start_root_and_inject_def Let_def)
  qed
  obtain res st1 where c: "start_from_trace_info name headers st = (res, st1)"
    by (cases "start_from_trace_info name headers st")
  have t1: "tracer st1 = tracer st"
    using c start_from_trace_info_fields [of name headers st]
    by (intro tracer_cong) simp_all
  show ?thesis
  proof (cases res)
    case (Inr r)
    with c show ?thesis by (simp add: new_scope_def)
  next
    case (Inl e)
    with c have "(case extract_ctx (tracer st) headers of
                    Inl e' \<Rightarrow> e' = e
                  | Inr ctx \<Rightarrow> start_active_span (tracer st) name ctx = Inl e)"
      by (auto simp: start_from_trace_info_def Let_def call_start_active_span_def
          split: sum.splits)
    with assms have caught: "e = InvalidCarrierException \<or> e = SpanContextCorruptedException"
      and r: "case start_active_span (tracer st) name None of
             Inl e \<Rightarrow> False
           | Inr sc \<Rightarrow> (case inject_ctx (tracer st) (ScopeArg sc) headers of
                          Inl e \<Rightarrow> False | Inr h \<Rightarrow> True)"
      by (auto simp: creates_span_def Let_def split: sum.splits)
    from root [OF t1 r] obtain r' where "fst (start_root_and_inject name headers st1) = Inr r'"
      by blast
    with c Inl caught show ?thesis
      by (cases "start_root_and_inject name headers st1") (auto simp: new_scope_def)
  qed
qed

lemma apply_tracing_body_fields:
  "tracer_implementation (tracing (snd (apply_tracing_body req vf as st))) =
     tracer_implementation (tracing st)"
  "opentracing_tracer (snd (apply_tracing_body req vf as st)) = opentracing_tracer st"
proof -
  obtain res st1 where c: "new_scope (func_name vf) (strip_headers (META req) Map.empty) st = (res, st1)"
    by (cases "new_scope (func_name vf) (strip_headers (META req) Map.empty) st")
  then have t: "tracing st1 = tracing st" "opentracing_tracer st1 = opentracing_tracer st"
    using new_scope_fields [of "func_name vf" "strip_headers (META req) Map.empty" st] by simp_all
  with c show "tracer_implementation (tracing (snd (apply_tracing_body req vf as st))) =
     tracer_implementation (tracing st)"
    "opentracing_tracer (snd (apply_tracing_body req vf as st)) = opentracing_tracer st"
    by (cases res; simp add: apply_tracing_body_def)+
qed

lemma finish_tracing_body_fields:
  "tracer_implementation (tracing (snd (finish_tracing_body req resp err st))) =
     tracer_implementation (tracing st)"
  "opentracing_tracer (snd (finish_tracing_body req resp err st)) = opentracing_tracer st"
  by (auto simp: finish_tracing_body_def Let_def after_pop_fields split: option.splits)

lemma exec_op_tracer [simp]: "tracer (exec_op p st) = tracer st"
  by (cases p)
     (simp_all add: tracer_def apply_tracing_tracing apply_tracing_body_fields
        finish_tracing_tracing finish_tracing_body_fields split: option.splits)

lemma apply_tracing_other_key:
  "k \<noteq> rid req \<Longrightarrow> stack_of (snd (apply_tracing req vf as st)) k = stack_of st k"
  by (simp add: stack_of_def apply_tracing_scopes split: sum.splits)

lemma run_nested:
  "stack_of st k = base @ extra \<Longrightarrow> length extra = d \<Longrightarrow>
   nested_pairs (tracer st) k d ops \<Longrightarrow>
   \<exists>extra'. stack_of (run ops st) k = base @ extra'"
proof (induction ops arbitrary: st extra d)
  case Nil
  then show ?case by simp
next
  case (Cons p ps)
  show ?case
  proof (cases p)
    case (Begin req vf as)
    show ?thesis
    proof (cases "rid req = k")
      case True
      with Cons.prems(3) Begin
      have cs: "creates_span (tracer st) (func_name vf) (strip_headers (META req) Map.empty)"
        and n: "nested_pairs (tracer st) k (Suc d) ps" by simp_all
      from creates_span_new_scope [OF cs] obtain r where
        "fst (new_scope (func_name vf) (strip_headers (META req) Map.empty) st) = Inr r" by blast
      then have "stack_of (exec_op p st) k = base @ (extra @ [Some r])"
        using Begin True Cons.prems(1)
        by (simp add: stack_of_def apply_tracing_scopes)
      from Cons.IH [OF this _ n [folded exec_op_tracer [of p st] ] ] Cons.prems(2)
      show ?thesis by simp
    next
      case False
      with Cons.prems(3) Begin have n: "nested_pairs (tracer st) k d ps" by simp
      have "stack_of (exec_op p st) k = base @ extra"
        using Begin False Cons.prems(1) by (simp add: apply_tracing_other_key)
      from Cons.IH [OF this Cons.prems(2) n [folded exec_op_tracer [of p st] ] ]
      show ?thesis by simp
    qed
  next
    case (End req resp err)
    show ?thesis
    proof (cases "rid req = k")
      case True
      with Cons.prems(3) End
      have d: "0 < d" and n: "nested_pairs (tracer st) k (d - 1) ps" by simp_all
      with Cons.prems(2) have ne: "extra \<noteq> []" by auto
      then have "stack_of (exec_op p st) k = base @ butlast extra"
        using End True Cons.prems(1) by (simp add: finish_tracing_stack butlast_append)
      from Cons.IH [OF this _ n [folded exec_op_tracer [of p st] ] ] Cons.prems(2)
      show ?thesis by simp
    next
      case False
      with Cons.prems(3) End have n: "nested_pairs (tracer st) k d ps" by simp
      have "stack_of (exec_op p st) k = base @ extra"
        using End False Cons.prems(1) by (simp add: finish_tracing_stack)
      from Cons.IH [OF this Cons.prems(2) n [folded exec_op_tracer [of p st] ] ]
      show ?thesis by simp
    qed
  qed
qed

text \<open>
  Property C6, as the code has it. When the request has a scope, \<^verbatim>\<open>get_span\<close> returns the
  span of the first scope of its list, and keeps returning it through any nested begin and
  end pairs in which every begin on the request gets a scope from the tracer; it returns
  none when the request has no scope.
\<close>

theorem get_span_outermost:
  "(current_scopes (tracing st) (rid req) = Some (Some r # rest) \<and>
      nested_pairs (tracer st) (rid req) 0 ops \<longrightarrow> get_span (run ops st) req = Inr (Some r)) \<and>
   (stack_of st (rid req) = [] \<longrightarrow> get_span st req = Inr None)"
proof -
  have a: "get_span (run ops st) req = Inr (Some r)"
    if s: "current_scopes (tracing st) (rid req) = Some (Some r # rest)"
      and n: "nested_pairs (tracer st) (rid req) 0 ops"
  proof -
    from s have "stack_of st (rid req) = (Some r # rest) @ []"
      by (simp add: stack_of_def)
    from run_nested [OF this _ n] obtain extra'
      where "stack_of (run ops st) (rid req) = (Some r # rest) @ extra'" by auto
    then show ?thesis
      by (auto simp: get_span_def stack_of_def split: option.splits)
  qed
  have b: "stack_of st (rid req) = [] \<longrightarrow> get_span st req = Inr None"
    by (auto simp: stack_of_def get_span_def split: option.splits list.splits)
  from a b show ?thesis by blast
qed

subsection \<open>Header normalisation\<close>

lemma lower_char_spec: "lower_char c = spec_lower_case c"
proof -
  have "((65 \<le> n \<and> n \<le> 90) \<or> (192 \<le> n \<and> n \<le> 222 \<and> n \<noteq> 215)) =
        (n \<in> set upper_case_letters)" for n :: nat
    unfolding upper_case_letters_def set_append set_upt Un_iff atLeastLessThan_iff
    by arith
  then show ?thesis
    by (simp add: lower_char_def spec_lower_case_def Let_def)
qed

lemma header_key_spec: "header_key k = spec_header_key k"
proof -
  have "lower_char = spec_lower_case"
    by (rule ext) (rule lower_char_spec)
  then show ?thesis
    by (simp add: header_key_def spec_header_key_def spec_strip_prefix_def lower_def
        replace_def startswith_def Let_def eval_nat_numeral)
qed

lemma strip_headers_map_of:
  "strip_headers items h = h ++ map_of (rev (map (\<lambda>(k, v). (header_key k, v)) items))"
  by (induction items arbitrary: h) (auto simp: map_add_def split: option.splits)

lemma strip_headers_spec: "strip_headers items Map.empty = spec_carrier items"
proof -
  have "header_key = spec_header_key"
    by (rule ext) (rule header_key_spec)
  then show ?thesis
    by (simp add: strip_headers_map_of spec_carrier_def)
qed

lemma new_scope_events:
  "\<exists>rest. events (snd (new_scope name headers st)) = events st @ Extract headers # rest"
proof -
  have a: "\<exists>rest. events (snd (call_start_active_span n p s)) = events s @ rest" for n p s
    by (simp add: call_start_active_span_def Let_def split: sum.splits)
  have b: "\<exists>rest. events (snd (start_from_trace_info name headers st)) =
             events st @ Extract headers # rest"
    using a [of name _ "emit (Extract headers) st"]
    by (auto simp: start_from_trace_info_def Let_def split: sum.splits)
  have c: "\<exists>rest. events (snd (start_root_and_inject name headers s)) = events s @ rest" for s
    using a [of name None s]
    by (cases "call_start_active_span name None s")
       (auto simp: start_root_and_inject_def Let_def split: sum.splits)
  obtain res st1 where d: "start_from_trace_info name headers st = (res, st1)"
    by (cases "start_from_trace_info name headers st")
  with b obtain rest where e: "events st1 = events st @ Extract headers # rest" by auto
  from c [of st1] obtain rest' where
    "events (snd (start_root_and_inject name headers st1)) = events st1 @ rest'" by blast
  with d e show ?thesis
    by (auto simp: new_scope_def split: sum.splits)
qed

lemma apply_tracing_body_events:
  "\<exists>rest. events (snd (apply_tracing_body req vf as st)) =
      events st @ Extract (strip_headers (META req) Map.empty) # rest"
proof -
  let ?h = "strip_headers (META req) Map.empty"
  obtain res st1 where c: "new_scope (func_name vf) ?h st = (res, st1)"
    by (cases "new_scope (func_name vf) ?h st")
  with new_scope_events [of "func_name vf" ?h st]
  obtain rest where e: "events st1 = events st @ Extract ?h # rest" by auto
  with c show ?thesis
    by (cases res) (simp_all add: apply_tracing_body_def)
qed

lemma apply_tracing_events:
  "\<exists>rest. events (snd (apply_tracing req vf as st)) =
      events st @ Extract (strip_headers (META req) Map.empty) # rest"
proof -
  obtain res st1 where c: "apply_tracing_body req vf as st = (res, st1)"
    by (cases "apply_tracing_body req vf as st")
  with apply_tracing_body_events [of req vf as st]
  obtain rest where "events st1 = events st @ Extract (strip_headers (META req) Map.empty) # rest"
    by auto
  with c show ?thesis
    by (auto simp: apply_tracing_def split: sum.splits)
qed

text \<open>
  Property C8. The first thing \<^verbatim>\<open>_apply_tracing\<close> asks the tracer is to extract from the
  carrier that maps each key of \<^verbatim>\<open>request.META\<close>, lower-cased, with hyphens for underscores
  and without a leading \<^verbatim>\<open>http-\<close>, to its unchanged value. Where two keys become the same
  header the later item wins; without such a clash every item is in the carrier.
\<close>

theorem apply_tracing_normalizes_headers:
  "(\<exists>rest. events (snd (apply_tracing req vf as st)) =
      events st @ Extract (spec_carrier (META req)) # rest) \<and>
   (distinct (map (spec_header_key \<circ> fst) (META req)) \<longrightarrow>
      (\<forall>(k, v) \<in> set (META req). spec_carrier (META req) (spec_header_key k) = Some v))"
proof -
  have a: "\<exists>rest. events (snd (apply_tracing req vf as st)) =
      events st @ Extract (spec_carrier (META req)) # rest"
    using apply_tracing_events [of req vf as st] by (simp add: strip_headers_spec)
  have b: "\<forall>(k, v) \<in> set (META req). spec_carrier (META req) (spec_header_key k) = Some v"
    if d: "distinct (map (spec_header_key \<circ> fst) (META req))"
  proof -
    let ?xs = "map (\<lambda>(k, v). (spec_header_key k, v)) (META req)"
    have m: "map fst ?xs = map (spec_header_key \<circ> fst) (META req)"
      by (simp add: case_prod_beta comp_def)
    have "distinct (map fst (rev ?xs))"
      using d m by (simp add: rev_map [symmetric] del: map_map)
    then have e: "map_of (rev ?xs) a = Some b" if "(a, b) \<in> set ?xs" for a b
      using that by (simp add: map_of_eq_Some_iff)
    have "spec_carrier (META req) (spec_header_key k) = Some v"
      if "(k, v) \<in> set (META req)" for k v
    proof -
      from that have "(spec_header_key k, v) \<in> set ?xs" by force
      from e [OF this] show ?thesis by (simp add: spec_carrier_def)
    qed
    then show ?thesis by blast
  qed
  from a b show ?thesis by blast
qed

subsection \<open>Exceptions\<close>







subsection \<open>Evaluation of the concrete inputs\<close>

lemma ex_header_keys:
  "header_key ''HTTP_X_TRACE_ID'' = ''x-trace-id''"
  "header_key ''REMOTE_ADDR'' = ''remote-addr''"
  by code_simp+

lemma ex_spec_header_keys:
  "spec_header_key ''HTTP_X_TRACE_ID'' = ''x-trace-id''"
  "spec_header_key ''REMOTE_ADDR'' = ''remote-addr''"
  "spec_header_key [CHR ''H'', CHR ''T'', CHR ''T'', CHR ''P'', CHR ''_'', CHR 0xC0, CHR ''B''] =
     [CHR 0xE0, CHR ''b'']"
  by code_simp+

lemmas ex_defs = ex_scope_def ex_extract_def ex_tracer_def ex_tracer_unsupported_def
  ex_tracer_strict_def ex_tracer_picky_def ex_request_def ex_request_plain_def ex_view_def
  ex_view_raising_def ex_state_def ex_cb_raising_def ex_st_def ex_not_a_response_def

lemmas apply_defs = apply_tracing_def apply_tracing_body_def new_scope_def
  start_from_trace_info_def start_root_and_inject_def call_start_active_span_def
  call_start_span_cb_def push_scope_def after_push_def standard_tags_def and_then_def
  value_of_def set_tag_def emit_def tracer_def

lemmas finish_defs = finish_tracing_def finish_tracing_body_def tag_error_def tag_status_def
  log_kv_def close_def

text \<open>Two begins and one end on one request: scope 1 is closed, scope 0 remains.\<close>

theorem scope_stack_lifo_witness:
  "stack_of (ends [(ex_request, None, None)]
       (snd (begins [(ex_request, ex_view, []), (ex_request, ex_view, [])] ex_st))) 1 = [Some 0] \<and>
   closed (heap (ends [(ex_request, None, None)]
       (snd (begins [(ex_request, ex_view, []), (ex_request, ex_view, [])] ex_st))) 1)"
proof -
  let ?bs = "[(ex_request, ex_view, []), (ex_request, ex_view, [])]"
  let ?es = "[(ex_request, None :: response option, None :: exc option)]"
  have h1: "\<forall>b \<in> set ?bs. rid (fst b) = 1" by (simp add: ex_defs)
  have h2: "fst (begins ?bs ex_st) = map (\<lambda>r. Inr (Some r)) [0, 1]"
    by (simp add: ex_defs apply_defs ex_header_keys Let_def)
  have h3: "\<forall>e \<in> set ?es. rid (fst e) = 1" by (simp add: ex_defs)
  have h4: "?es \<noteq> []" by simp
  have h5: "length ?es \<le> length [0::nat, 1]" by simp
  have s: "stack_of ex_st 1 = []" by (simp add: stack_of_def ex_defs)
  have c: "span_calls_return (heap (snd (begins ?bs ex_st)) 1) None None"
    by (simp add: span_calls_return_def ex_defs apply_defs ex_header_keys Let_def)
  from scope_stack_lifo [OF h1 h2 h3 h4 h5] s c show ?thesis by simp
qed

text \<open>
  A begin that pushes nothing: the tracer's extract raises an exception that the inner
  handler does not name, the outer handler logs it, and the request gets no entry.
\<close>

theorem begin_without_push:
  "fst (apply_tracing ex_request ex_view [] (ex_state ex_tracer_unsupported CbNone)) = Inr None \<and>
   current_scopes (tracing (snd (apply_tracing ex_request ex_view []
      (ex_state ex_tracer_unsupported CbNone)))) (rid ex_request) = None"
  by (simp add: ex_defs apply_defs ex_header_keys Let_def)





subsection \<open>Further concrete runs\<close>

text \<open>
  Property C4 at two inputs. The request has no trace header, so extract fails with a
  corrupted context. With a tracer whose inject takes a span context, line 106 hands it the
  scope: inject raises, the begin logs that, returns none and pushes nothing. With a tracer
  whose inject takes anything, two begins on the request each extract from the same carrier
  without trace id and each start a span without parent: what the first injected went
  into its own local headers.
\<close>

theorem fallback_injects_scope_locally:
  "extract_ctx ex_tracer_strict (strip_headers (META ex_request_plain) Map.empty) =
     Inl SpanContextCorruptedException \<and>
   fst (apply_tracing ex_request_plain ex_view [] (ex_state ex_tracer_strict CbNone)) = Inr None \<and>
   current_scopes (tracing (snd (apply_tracing ex_request_plain ex_view []
      (ex_state ex_tracer_strict CbNone)))) (rid ex_request_plain) = None \<and>
   last (events (snd (apply_tracing ex_request_plain ex_view [] (ex_state ex_tracer_strict CbNone)))) =
     LogError ''Exception during apply tracing: Scope object has no attribute trace_id'' \<and>
   fst (begins [(ex_request_plain, ex_view, []), (ex_request_plain, ex_view, [])] ex_st) =
     [Inr (Some 0), Inr (Some 1)] \<and>
   events (snd (begins [(ex_request_plain, ex_view, []), (ex_request_plain, ex_view, [])] ex_st)) =
     [Extract (strip_headers (META ex_request_plain) Map.empty),
      StartActiveSpan ''view_foo'' None,
      Inject 0 (strip_headers (META ex_request_plain) Map.empty),
      Extract (strip_headers (META ex_request_plain) Map.empty),
      StartActiveSpan ''view_foo'' None,
      Inject 1 (strip_headers (META ex_request_plain) Map.empty)] \<and>
   strip_headers (META ex_request_plain) Map.empty ''x-trace-id'' = None"
  by (simp add: ex_defs apply_defs ex_header_keys Let_def)

text \<open>In particular the begin does not return the scope it started.\<close>

theorem fallback_injects_scope_locally_witness:
  "fst (apply_tracing ex_request_plain ex_view [] (ex_state ex_tracer_strict CbNone)) \<noteq>
     Inr (Some 0)"
  using fallback_injects_scope_locally by simp

text \<open>A nested begin and end pair leaves the outer span as the answer.\<close>

theorem get_span_outermost_witness:
  "get_span (run [Begin ex_request ex_view [], End ex_request None None]
       (snd (apply_tracing ex_request ex_view [] ex_st))) ex_request = Inr (Some 0) \<and>
   get_span ex_st ex_request = Inr None"
proof -
  let ?st1 = "snd (apply_tracing ex_request ex_view [] ex_st)"
  let ?ops = "[Begin ex_request ex_view [], End ex_request None None]"
  have s: "current_scopes (tracing ?st1) (rid ex_request) = Some (Some 0 # [])"
    by (simp add: ex_defs apply_defs ex_header_keys Let_def)
  have t: "tracer ?st1 = ex_tracer None"
    using exec_op_tracer [of "Begin ex_request ex_view []" ex_st]
    by (simp add: tracer_def ex_defs)
  have c: "creates_span (ex_tracer None) (func_name ex_view)
      (strip_headers (META ex_request) Map.empty)"
    by (simp add: creates_span_def ex_defs ex_header_keys Let_def)
  have a: "nested_pairs (tracer ?st1) (rid ex_request) 0 ?ops"
    using c by (simp add: t)
  have e: "stack_of ex_st (rid ex_request) = []"
    by (simp add: stack_of_def ex_defs)
  from get_span_outermost [of ?st1 ex_request 0 "[]" ?ops] s a
  have x: "get_span (run ?ops ?st1) ex_request = Inr (Some 0)" by blast
  from get_span_outermost [of ex_st ex_request] e
  have y: "get_span ex_st ex_request = Inr None" by blast
  from x y show ?thesis by blast
qed

text \<open>
  A nested pair whose begin gets no scope: the tracer cannot start the inner span, the
  inner begin pushes nothing, the inner end pops the outer scope, and \<^verbatim>\<open>get_span\<close>
  returns none while the outer call is still running.
\<close>

theorem nested_failed_begin_pops_outer:
  "get_span (snd (apply_tracing ex_request ex_view [] (ex_state ex_tracer_picky CbNone))) ex_request =
     Inr (Some 0) \<and>
   get_span
     (run [Begin ex_request (ex_view_raising (ValueError ''boom'')) [],
           End ex_request None (Some (ValueError ''boom''))]
        (snd (apply_tracing ex_request ex_view [] (ex_state ex_tracer_picky CbNone))))
     ex_request = Inr None"
  by (simp add: get_span_def ex_defs apply_defs finish_defs ex_header_keys Let_def)

text \<open>An end with both a response of status 404 and an error.\<close>

theorem finish_tracing_tags_and_closes_witness:
  "closed (heap (snd (finish_tracing ex_request (Some \<lparr>status_code = Inr 404\<rparr>)
       (Some (ValueError ''boom'')) (snd (apply_tracing ex_request ex_view [] ex_st)))) 0) \<and>
   tags (heap (snd (finish_tracing ex_request (Some \<lparr>status_code = Inr 404\<rparr>)
       (Some (ValueError ''boom'')) (snd (apply_tracing ex_request ex_view [] ex_st)))) 0) ERROR
     = Some (TagBool True) \<and>
   tags (heap (snd (finish_tracing ex_request (Some \<lparr>status_code = Inr 404\<rparr>)
       (Some (ValueError ''boom'')) (snd (apply_tracing ex_request ex_view [] ex_st)))) 0)
       HTTP_STATUS_CODE = Some (TagInt 404)"
proof -
  let ?st1 = "snd (apply_tracing ex_request ex_view [] ex_st)"
  have s: "stack_of ?st1 (rid ex_request) = [Some 0]"
    by (simp add: ex_defs apply_defs ex_header_keys Let_def stack_of_def)
  then have h1: "stack_of ?st1 (rid ex_request) \<noteq> []"
    and h2: "last (stack_of ?st1 (rid ex_request)) = Some 0" by simp_all
  have h3: "span_calls_return (heap ?st1 0) (Some \<lparr>status_code = Inr 404\<rparr>)
      (Some (ValueError ''boom''))"
    by (simp add: span_calls_return_def ex_defs apply_defs ex_header_keys Let_def)
  from finish_tracing_tags_and_closes [OF h1 h2 h3]
  show ?thesis by simp
qed

text \<open>
  An end given a value without status code: the scope is popped, the exception is logged
  and the scope is not closed.
\<close>

theorem finish_skips_close:
  "fst (finish_tracing ex_request (Some ex_not_a_response) None
       (snd (apply_tracing ex_request ex_view [] ex_st))) = Inr () \<and>
   current_scopes (tracing (snd (finish_tracing ex_request (Some ex_not_a_response) None
       (snd (apply_tracing ex_request ex_view [] ex_st))))) (rid ex_request) = None \<and>
   \<not> closed (heap (snd (finish_tracing ex_request (Some ex_not_a_response) None
       (snd (apply_tracing ex_request ex_view [] ex_st)))) 0)"
  by (simp add: ex_defs apply_defs finish_defs ex_header_keys Let_def)

text \<open>The two headers of the example request, and a key with an accented capital.\<close>

theorem apply_tracing_normalizes_headers_witness:
  "spec_carrier (META ex_request) ''x-trace-id'' = Some ''abc'' \<and>
   spec_carrier (META ex_request) ''remote-addr'' = Some ''10.0.0.1'' \<and>
   spec_carrier
     (META (ex_request\<lparr>META :=
        [([CHR ''H'', CHR ''T'', CHR ''T'', CHR ''P'', CHR ''_'', CHR 0xC0, CHR ''B''], ''v'')]\<rparr>))
     [CHR 0xE0, CHR ''b''] = Some ''v''"
proof -
  let ?req2 = "ex_request\<lparr>META :=
        [([CHR ''H'', CHR ''T'', CHR ''T'', CHR ''P'', CHR ''_'', CHR 0xC0, CHR ''B''], ''v'')]\<rparr>"
  have d: "distinct (map (spec_header_key \<circ> fst) (META ex_request))"
    by (simp add: ex_request_def ex_spec_header_keys)
  have m: "(''HTTP_X_TRACE_ID'', ''abc'') \<in> set (META ex_request)"
    "(''REMOTE_ADDR'', ''10.0.0.1'') \<in> set (META ex_request)"
    by (simp_all add: ex_request_def)
  from apply_tracing_normalizes_headers [of ex_request ex_view "[]" ex_st] d
  have a: "\<forall>(k, v) \<in> set (META ex_request). spec_carrier (META ex_request) (spec_header_key k) = Some v"
    by blast
  have d2: "distinct (map (spec_header_key \<circ> fst) (META ?req2))" by simp
  from apply_tracing_normalizes_headers [of ?req2 ex_view "[]" ex_st] d2
  have b: "\<forall>(k, v) \<in> set (META ?req2). spec_carrier (META ?req2) (spec_header_key k) = Some v"
    by blast
  from a m b show ?thesis by (auto simp: ex_spec_header_keys)
qed


subsection \<open>Constructor and global tracer\<close>

text \<open>
  Property C10. The constructor raises \<^verbatim>\<open>ValueError\<close> when \<^verbatim>\<open>start_span_cb\<close> is given
  and not callable; otherwise it returns a tracker with the given tracer and callback, an
  empty scope mapping and trace-all off.
\<close>

theorem DjangoTracing_init_spec:
  "(cb \<noteq> CbNone \<and> \<not> callable cb \<longrightarrow>
      DjangoTracing_init tr cb = Inl (ValueError ''start_span_cb is not callable'')) \<and>
   (cb = CbNone \<or> callable cb \<longrightarrow>
      DjangoTracing_init tr cb =
        Inr \<lparr>tracer_implementation = tr, start_span_cb = cb,
             current_scopes = Map.empty, trace_all = False\<rparr>)"
  by (auto simp: DjangoTracing_init_def)

text \<open>A callback that is not callable, and none.\<close>

theorem DjangoTracing_init_spec_witness:
  "DjangoTracing_init (Some (ex_tracer None)) CbNotCallable =
     Inl (ValueError ''start_span_cb is not callable'') \<and>
   DjangoTracing_init (Some (ex_tracer None)) CbNone = Inr (tracing ex_st)"
  using DjangoTracing_init_spec [of CbNotCallable "Some (ex_tracer None)"]
    DjangoTracing_init_spec [of CbNone "Some (ex_tracer None)"]
  by (simp add: ex_st_def ex_state_def)

text \<open>
  Property C9. The first call of \<^verbatim>\<open>initialize_global_tracer\<close> installs the holder's
  tracer, when it has one, as \<^verbatim>\<open>opentracing.tracer\<close> and sets the flag; a call with the
  flag set changes nothing, whatever its argument.
\<close>

theorem initialize_global_tracer_once:
  "(\<not> complete st \<longrightarrow>
      complete (initialize_global_tracer tr st) \<and>
      opentracing_tracer (initialize_global_tracer tr st) =
        (case tracer_implementation tr of Some t \<Rightarrow> t | None \<Rightarrow> opentracing_tracer st) \<and>
      tracing (initialize_global_tracer tr st) = tracing st \<and>
      heap (initialize_global_tracer tr st) = heap st \<and>
      events (initialize_global_tracer tr st) = events st \<and>
      initialize_global_tracer tr' (initialize_global_tracer tr st) =
        initialize_global_tracer tr st) \<and>
   (complete st \<longrightarrow> initialize_global_tracer tr st = st)"
  by (auto simp: initialize_global_tracer_def Let_def split: option.splits)

text \<open>Two calls with different holders: the first one's tracer stays.\<close>

theorem initialize_global_tracer_once_witness:
  "opentracing_tracer (initialize_global_tracer (tracing (ex_state ex_tracer_unsupported CbNone)) ex_st)
     = ex_tracer_unsupported \<and>
   initialize_global_tracer (tracing ex_st)
     (initialize_global_tracer (tracing (ex_state ex_tracer_unsupported CbNone)) ex_st) =
   initialize_global_tracer (tracing (ex_state ex_tracer_unsupported CbNone)) ex_st"
proof -
  have "\<not> complete ex_st" by (simp add: ex_st_def ex_state_def)
  moreover have "tracer_implementation (tracing (ex_state ex_tracer_unsupported CbNone)) =
      Some ex_tracer_unsupported" by (simp add: ex_state_def)
  ultimately show ?thesis
    using initialize_global_tracer_once
      [of ex_st "tracing (ex_state ex_tracer_unsupported CbNone)" "tracing ex_st"]
    by simp
qed

end
